theory Spec2Isabelle
  imports Complex_Main
begin

section \<open>Black-Scholes-Merton pricing library (black\_scholes\_model.py)\<close>

text \<open>
  The library is six pure functions of five float parameters and an option-type string.
  Floats are modelled as exact reals, as the properties below are statements of real
  arithmetic. The helper that computes the moneyness variables can also return
  \<open>np.inf\<close> and \<open>-np.inf\<close>, so its results live in the reals extended by the two
  infinities.

  The general branch of the helper is embedded for \<open>S / K > 0\<close>, where \<open>np.log\<close> is
  the real logarithm. The Python division \<open>S / K\<close> raises \<open>ZeroDivisionError\<close> when
  \<open>K\<close> is zero; this is a branch of the model.
\<close>

subsection \<open>Errors and extended reals\<close>

datatype error = ValueError | ZeroDivisionError

datatype xreal = NegInf | Fin real | PosInf

text \<open>Unary minus on a float: \<open>-d1\<close>, \<open>-d2\<close>.\<close>

fun xneg :: "xreal \<Rightarrow> xreal" where
  "xneg NegInf = PosInf"
| "xneg (Fin x) = Fin (- x)"
| "xneg PosInf = NegInf"

subsection \<open>The standard normal distribution (scipy.stats.norm)\<close>

text \<open>
  Modelled from the spec: \<open>norm.pdf\<close> and \<open>norm.cdf\<close> come from scipy, which is not
  part of the repository; the spec names them the standard normal probability density
  function and the standard normal cumulative distribution function.

  The density is \<open>exp (- x\<^sup>2 / 2) / sqrt (2 pi)\<close>. The distribution function is
  \<open>1/2 + (\<integral>\<^sub>0\<^sup>x exp (- t\<^sup>2 / 2) dt) / sqrt (2 pi)\<close>, with the integral given by its
  Maclaurin series \<open>\<Sum>n. (-1)^n x^(2n+1) / (2^n n! (2n+1))\<close>, written as
  \<open>x\<close> times a power series in \<open>x\<^sup>2\<close>. That this is the distribution function is
  checked below: its derivative is the density, its value at 0 is \<open>1/2\<close>, and its
  values lie in \<open>[0, 1]\<close>.
\<close>

definition phi :: "real \<Rightarrow> real" where
  "phi x = exp (- (x\<^sup>2) / 2) / sqrt (2 * pi)"

definition cdf_coeff :: "nat \<Rightarrow> real" where
  "cdf_coeff n = (- 1) ^ n / (2 ^ n * fact n * real (2 * n + 1))"

definition cdf_series :: "real \<Rightarrow> real" where
  "cdf_series y = (\<Sum>n. cdf_coeff n * y ^ n)"

definition gauss_int :: "real \<Rightarrow> real" where
  "gauss_int x = x * cdf_series (x\<^sup>2)"

definition std_normal_cdf :: "real \<Rightarrow> real" where
  "std_normal_cdf x = 1 / 2 + gauss_int x / sqrt (2 * pi)"

text \<open>On the extended reals: \<open>norm.cdf\<close> is 0 and 1 at the infinities, \<open>norm.pdf\<close>
  vanishes there.\<close>

fun norm_cdf :: "xreal \<Rightarrow> real" where
  "norm_cdf NegInf = 0"
| "norm_cdf (Fin x) = std_normal_cdf x"
| "norm_cdf PosInf = 1"

fun norm_pdf :: "xreal \<Rightarrow> real" where
  "norm_pdf NegInf = 0"
| "norm_pdf (Fin x) = phi x"
| "norm_pdf PosInf = 0"

text \<open>
  Two auxiliary functions for bounding the distribution function: \<open>cos_int m t\<close> is
  \<open>\<integral>\<^sub>0\<^sup>t cos\<^sup>m\<close>, by the usual reduction formula, and \<open>wallis m\<close> is its value at
  \<open>pi / 2\<close>.
\<close>

fun cos_int :: "nat \<Rightarrow> real \<Rightarrow> real" where
  "cos_int 0 t = t"
| "cos_int (Suc 0) t = sin t"
| "cos_int (Suc (Suc m)) t =
     cos t ^ Suc m * sin t / real (m + 2) + real (m + 1) / real (m + 2) * cos_int m t"

definition wallis :: "nat \<Rightarrow> real" where
  "wallis m = cos_int m (pi / 2)"

subsection \<open>The functions of the module\<close>

text \<open>\<open>_calculate_d1_d2(S, K, T, r, sigma)\<close>\<close>

definition calculate_d1_d2 ::
  "real \<Rightarrow> real \<Rightarrow> real \<Rightarrow> real \<Rightarrow> real \<Rightarrow> error + (xreal \<times> xreal)" where
  "calculate_d1_d2 S K T r sigma =
     (if T \<le> 0 \<or> sigma \<le> 0 then
        (if S > K then Inr (PosInf, PosInf) else Inr (NegInf, NegInf))
      else if K = 0 then Inl ZeroDivisionError
      else
        (let d1 = (ln (S / K) + (r + 0.5 * sigma\<^sup>2) * T) / (sigma * sqrt T);
             d2 = d1 - sigma * sqrt T
         in Inr (Fin d1, Fin d2)))"

text \<open>\<open>black_scholes_price(S, K, T, r, sigma, option_type)\<close>\<close>

definition black_scholes_price ::
  "real \<Rightarrow> real \<Rightarrow> real \<Rightarrow> real \<Rightarrow> real \<Rightarrow> string \<Rightarrow> error + real" where
  "black_scholes_price S K T r sigma option_type =
     (if T \<le> 0 then
        (if option_type = ''call'' then Inr (max 0 (S - K)) else Inr (max 0 (K - S)))
      else
        (case calculate_d1_d2 S K T r sigma of
           Inl e \<Rightarrow> Inl e
         | Inr (d1, d2) \<Rightarrow>
             if option_type = ''call'' then
               Inr (S * norm_cdf d1 - K * exp (- r * T) * norm_cdf d2)
             else if option_type = ''put'' then
               Inr (K * exp (- r * T) * norm_cdf (xneg d2) - S * norm_cdf (xneg d1))
             else Inl ValueError))"

text \<open>\<open>delta(S, K, T, r, sigma, option_type)\<close>\<close>

definition delta ::
  "real \<Rightarrow> real \<Rightarrow> real \<Rightarrow> real \<Rightarrow> real \<Rightarrow> string \<Rightarrow> error + real" where
  "delta S K T r sigma option_type =
     (if T \<le> 0 then
        (if option_type = ''call'' then Inr (if S > K then 1 else 0)
         else Inr (if S < K then - 1 else 0))
      else
        (case calculate_d1_d2 S K T r sigma of
           Inl e \<Rightarrow> Inl e
         | Inr (d1, d2) \<Rightarrow>
             if option_type = ''call'' then Inr (norm_cdf d1)
             else Inr (norm_cdf d1 - 1)))"

text \<open>\<open>gamma(S, K, T, r, sigma)\<close>\<close>

definition gamma :: "real \<Rightarrow> real \<Rightarrow> real \<Rightarrow> real \<Rightarrow> real \<Rightarrow> error + real" where
  "gamma S K T r sigma =
     (if T \<le> 0 \<or> sigma \<le> 0 then Inr 0
      else
        (case calculate_d1_d2 S K T r sigma of
           Inl e \<Rightarrow> Inl e
         | Inr (d1, d2) \<Rightarrow> Inr (norm_pdf d1 / (S * sigma * sqrt T))))"

text \<open>\<open>vega(S, K, T, r, sigma)\<close>\<close>

definition vega :: "real \<Rightarrow> real \<Rightarrow> real \<Rightarrow> real \<Rightarrow> real \<Rightarrow> error + real" where
  "vega S K T r sigma =
     (if T \<le> 0 \<or> sigma \<le> 0 then Inr 0
      else
        (case calculate_d1_d2 S K T r sigma of
           Inl e \<Rightarrow> Inl e
         | Inr (d1, d2) \<Rightarrow> Inr (S * norm_pdf d1 * sqrt T)))"

text \<open>\<open>theta(S, K, T, r, sigma, option_type)\<close>\<close>

definition theta ::
  "real \<Rightarrow> real \<Rightarrow> real \<Rightarrow> real \<Rightarrow> real \<Rightarrow> string \<Rightarrow> error + real" where
  "theta S K T r sigma option_type =
     (if T \<le> 0 then Inr 0
      else
        (case calculate_d1_d2 S K T r sigma of
           Inl e \<Rightarrow> Inl e
         | Inr (d1, d2) \<Rightarrow>
             (let term1 = - (S * norm_pdf d1 * sigma) / (2 * sqrt T) in
              if option_type = ''call'' then
                (let term2 = r * K * exp (- r * T) * norm_cdf d2
                 in Inr ((term1 - term2) / 365))
              else
                (let term2 = r * K * exp (- r * T) * norm_cdf (xneg d2)
                 in Inr ((term1 + term2) / 365)))))"

text \<open>\<open>rho(S, K, T, r, sigma, option_type)\<close>\<close>

definition rho ::
  "real \<Rightarrow> real \<Rightarrow> real \<Rightarrow> real \<Rightarrow> real \<Rightarrow> string \<Rightarrow> error + real" where
  "rho S K T r sigma option_type =
     (if T \<le> 0 then Inr 0
      else
        (case calculate_d1_d2 S K T r sigma of
           Inl e \<Rightarrow> Inl e
         | Inr (d1, d2) \<Rightarrow>
             if option_type = ''call'' then
               Inr ((K * T * exp (- r * T) * norm_cdf d2) / 100)
             else
               Inr ((- K * T * exp (- r * T) * norm_cdf (xneg d2)) / 100)))"

subsection \<open>The general branch as real functions\<close>

text \<open>
  For \<open>T > 0\<close> and \<open>sigma > 0\<close> the helper returns finite values; \<open>d1_of\<close> is its
  first component and \<open>call_value\<close> the call formula, as functions that the analysis
  below can differentiate in the spot.
\<close>

definition d1_of :: "real \<Rightarrow> real \<Rightarrow> real \<Rightarrow> real \<Rightarrow> real \<Rightarrow> real" where
  "d1_of S K T r sigma = (ln (S / K) + (r + 0.5 * sigma\<^sup>2) * T) / (sigma * sqrt T)"

definition call_value :: "real \<Rightarrow> real \<Rightarrow> real \<Rightarrow> real \<Rightarrow> real \<Rightarrow> real" where
  "call_value S K T r sigma =
     S * std_normal_cdf (d1_of S K T r sigma)
     - K * exp (- r * T) * std_normal_cdf (d1_of S K T r sigma - sigma * sqrt T)"

section \<open>The standard normal density and distribution function\<close>

lemma phi_nonneg: "0 \<le> phi x"
  by (simp add: phi_def)

lemma norm_pdf_nonneg: "0 \<le> norm_pdf d"
  by (cases d) (simp_all add: phi_nonneg)

subsection \<open>The series and its derivative\<close>

text \<open>The series converges everywhere, by comparison with the exponential series.\<close>

lemma cdf_coeff_summable: "summable (\<lambda>n. cdf_coeff n * y ^ n)"
proof (rule summable_comparison_test')
  show "summable (\<lambda>n. inverse (fact n) * (\<bar>y\<bar> / 2) ^ n)"
    by (rule summable_exp)
next
  fix n :: nat
  have "norm (cdf_coeff n * y ^ n) = \<bar>y\<bar> ^ n / (2 ^ n * fact n * real (2 * n + 1))"
    by (simp add: cdf_coeff_def abs_mult power_abs)
  also have "\<dots> \<le> \<bar>y\<bar> ^ n / (2 ^ n * fact n * 1)"
    by (intro divide_left_mono mult_left_mono) (auto)
  also have "\<dots> = inverse (fact n) * (\<bar>y\<bar> / 2) ^ n"
    by (simp add: power_divide field_simps)
  finally show "norm (cdf_coeff n * y ^ n) \<le> inverse (fact n) * (\<bar>y\<bar> / 2) ^ n" .
qed

lemma cdf_series_deriv:
  "DERIV cdf_series y :> (\<Sum>n. diffs cdf_coeff n * y ^ n)"
  unfolding cdf_series_def
  by (rule termdiffs_strong_converges_everywhere) (rule cdf_coeff_summable)

lemma cdf_series_ode:
  "cdf_series y + 2 * y * (\<Sum>n. diffs cdf_coeff n * y ^ n) = exp (- y / 2)"
proof -
  have s1: "(\<lambda>n. cdf_coeff n * y ^ n) sums cdf_series y"
    unfolding cdf_series_def by (rule summable_sums [OF cdf_coeff_summable])
  have "summable (\<lambda>n. diffs cdf_coeff n * y ^ n)"
    by (rule termdiff_converges_all) (rule cdf_coeff_summable)
  then have s2: "(\<lambda>n. real n * cdf_coeff n * y ^ (n - Suc 0)) sums (\<Sum>n. diffs cdf_coeff n * y ^ n)"
    by (rule diffs_equiv)
  have "(\<lambda>n. cdf_coeff n * y ^ n + 2 * y * (real n * cdf_coeff n * y ^ (n - Suc 0)))
          sums (cdf_series y + 2 * y * (\<Sum>n. diffs cdf_coeff n * y ^ n))"
    by (intro sums_add sums_mult s1 s2)
  moreover have "cdf_coeff n * y ^ n + 2 * y * (real n * cdf_coeff n * y ^ (n - Suc 0))
                   = (- y / 2) ^ n /\<^sub>R fact n" for n
  proof (cases n)
    case 0
    then show ?thesis by (simp add: cdf_coeff_def)
  next
    case (Suc m)
    have "cdf_coeff n * y ^ n + 2 * y * (real n * cdf_coeff n * y ^ (n - Suc 0))
            = (real (2 * n + 1) * cdf_coeff n) * y ^ n"
      using Suc by (simp add: algebra_simps)
    also have "real (2 * n + 1) * cdf_coeff n = (- 1) ^ n / (2 ^ n * fact n)"
      by (simp add: cdf_coeff_def)
    also have "(- 1) ^ n / (2 ^ n * fact n) * y ^ n = (- y / 2) ^ n /\<^sub>R fact n"
    proof -
      have "(- y / 2) ^ n = ((- 1) * (y / 2)) ^ n" by simp
      also have "\<dots> = (- 1) ^ n * (y / 2) ^ n" by (rule power_mult_distrib)
      also have "\<dots> = (- 1) ^ n * y ^ n / 2 ^ n" by (simp add: power_divide)
      finally show ?thesis by (simp add: field_simps)
    qed
    finally show ?thesis .
  qed
  ultimately have "(\<lambda>n. (- y / 2) ^ n /\<^sub>R fact n)
          sums (cdf_series y + 2 * y * (\<Sum>n. diffs cdf_coeff n * y ^ n))"
    by simp
  then show ?thesis
    by (rule sums_unique2) (rule exp_converges)
qed

lemma gauss_int_deriv: "DERIV gauss_int x :> exp (- (x\<^sup>2) / 2)"
proof -
  have "DERIV (\<lambda>x. x * cdf_series (x\<^sup>2)) x :>
          1 * cdf_series (x\<^sup>2) + ((\<Sum>n. diffs cdf_coeff n * (x\<^sup>2) ^ n) * (2 * x)) * x"
    by (rule DERIV_mult derivative_eq_intros DERIV_chain2 [OF cdf_series_deriv] refl | simp)+
  also have "1 * cdf_series (x\<^sup>2) + ((\<Sum>n. diffs cdf_coeff n * (x\<^sup>2) ^ n) * (2 * x)) * x
               = exp (- (x\<^sup>2) / 2)"
    using cdf_series_ode [of "x\<^sup>2"] by (simp add: power2_eq_square algebra_simps)
  finally show ?thesis by (simp add: gauss_int_def [abs_def])
qed

lemma gauss_int_0: "gauss_int 0 = 0"
  by (simp add: gauss_int_def)

lemma gauss_int_minus: "gauss_int (- x) = - gauss_int x"
  by (simp add: gauss_int_def)

lemma gauss_int_nonneg:
  assumes "0 \<le> x"
  shows "0 \<le> gauss_int x"
proof -
  have "gauss_int 0 \<le> gauss_int x"
  proof (rule DERIV_nonneg_imp_nondecreasing [of 0 x gauss_int, OF assms])
    fix y :: real
    have "0 \<le> exp (- (y\<^sup>2) / 2)" by simp
    with gauss_int_deriv [of y] show "\<exists>d. DERIV gauss_int y :> d \<and> 0 \<le> d" by blast
  qed
  then show ?thesis by (simp add: gauss_int_0)
qed

subsection \<open>Integrals of powers of the cosine\<close>

lemma reduction_step: "N \<noteq> 0 \<Longrightarrow> (N * P - M * Q) / N + M / N * Q = (P::real)"
  by (simp add: field_simps)

lemma cos_int_deriv: "DERIV (cos_int m) t :> cos t ^ m"
proof (induction m t rule: cos_int.induct)
  case (1 t)
  have "DERIV (\<lambda>t::real. t) t :> 1" by simp
  then show ?case by (simp add: cos_int.simps(1) [abs_def])
next
  case (2 t)
  show ?case by (simp add: cos_int.simps(2) [abs_def])
next
  case (3 m t)
  have c: "DERIV (\<lambda>t. cos t ^ Suc m) t :> real (Suc m) * (- sin t * cos t ^ (Suc m - Suc 0))"
    by (rule DERIV_power) (rule DERIV_cos)
  have a: "DERIV (\<lambda>t. cos t ^ Suc m * sin t) t
              :> real (Suc m) * (- sin t * cos t ^ (Suc m - Suc 0)) * sin t + cos t * cos t ^ Suc m"
    by (rule DERIV_mult [OF c DERIV_sin])
  have "DERIV (\<lambda>t. cos t ^ Suc m * sin t / real (m + 2) + real (m + 1) / real (m + 2) * cos_int m t) t
          :> (real (Suc m) * (- sin t * cos t ^ (Suc m - Suc 0)) * sin t + cos t * cos t ^ Suc m)
               / real (m + 2)
             + real (m + 1) / real (m + 2) * cos t ^ m"
    by (intro DERIV_add DERIV_cdivide DERIV_cmult a "3.IH")
  moreover have "(real (Suc m) * (- sin t * cos t ^ (Suc m - Suc 0)) * sin t + cos t * cos t ^ Suc m)
               / real (m + 2)
             + real (m + 1) / real (m + 2) * cos t ^ m = cos t ^ Suc (Suc m)"
  proof -
    have s: "sin t * sin t = 1 - cos t * cos t"
      using sin_cos_squared_add [of t] by (simp add: power2_eq_square algebra_simps)
    have "real (Suc m) * (- sin t * cos t ^ (Suc m - Suc 0)) * sin t + cos t * cos t ^ Suc m
            = - real (Suc m) * cos t ^ m * (sin t * sin t) + cos t ^ m * (cos t * cos t)"
      by (simp add: algebra_simps)
    also have "\<dots> = real (m + 2) * cos t ^ Suc (Suc m) - real (m + 1) * cos t ^ m"
      unfolding s by (simp add: algebra_simps)
    finally have num: "real (Suc m) * (- sin t * cos t ^ (Suc m - Suc 0)) * sin t
                         + cos t * cos t ^ Suc m
                       = real (m + 2) * cos t ^ Suc (Suc m) - real (m + 1) * cos t ^ m" .
    show ?thesis
      unfolding num by (rule reduction_step) simp
  qed
  ultimately show ?case by (simp add: cos_int.simps(3) [abs_def])
qed

lemma cos_int_0_aux: "t = 0 \<Longrightarrow> cos_int m t = 0"
  by (induction m t rule: cos_int.induct) simp_all

lemma cos_int_0: "cos_int m 0 = 0"
  by (rule cos_int_0_aux) simp

lemma wallis_0: "wallis 0 = pi / 2"
  by (simp add: wallis_def)

lemma wallis_1: "wallis (Suc 0) = 1"
  by (simp add: wallis_def)

lemma wallis_Suc_Suc: "wallis (Suc (Suc m)) = real (m + 1) / real (m + 2) * wallis m"
  by (simp add: wallis_def)

lemma cos_int_le_wallis:
  assumes "0 \<le> t" "t \<le> pi / 2"
  shows "cos_int m t \<le> wallis m"
  unfolding wallis_def
proof (rule DERIV_nonneg_imp_nondecreasing [of t "pi / 2" "cos_int m", OF assms(2)])
  fix x :: real assume "t \<le> x" "x \<le> pi / 2"
  with assms(1) have "0 \<le> cos x" by (intro cos_ge_zero) simp_all
  then have "0 \<le> cos x ^ m" by simp
  with cos_int_deriv [of m x] show "\<exists>y. DERIV (cos_int m) x :> y \<and> 0 \<le> y" by blast
qed

lemma wallis_decreasing: "wallis (Suc m) \<le> wallis m"
proof -
  define f where "f = (\<lambda>t. cos_int m t - cos_int (Suc m) t)"
  have "f 0 \<le> f (pi / 2)"
  proof (rule DERIV_nonneg_imp_nondecreasing [of 0 "pi / 2" f])
    show "(0::real) \<le> pi / 2" by simp
  next
    fix x :: real assume x: "0 \<le> x" "x \<le> pi / 2"
    then have c: "0 \<le> cos x" by (intro cos_ge_zero) simp_all
    have "cos x ^ Suc m \<le> cos x ^ m"
      by (rule power_decreasing) (use c in simp_all)
    then have "0 \<le> cos x ^ m - cos x ^ Suc m" by simp
    moreover have "DERIV f x :> cos x ^ m - cos x ^ Suc m"
      unfolding f_def by (intro DERIV_diff cos_int_deriv)
    ultimately show "\<exists>y. DERIV f x :> y \<and> 0 \<le> y"
      by blast
  qed
  then show ?thesis by (simp add: f_def cos_int_0 wallis_def)
qed

lemma cancel_step: "a \<noteq> 0 \<Longrightarrow> a / b * (p / (2 * a)) = p / (2 * (b::real))"
  by simp

lemma wallis_product: "wallis (Suc m) * wallis m = pi / (2 * real (Suc m))"
proof (induction m)
  case 0
  show ?case by (simp add: wallis_0 wallis_1)
next
  case (Suc m)
  have "wallis (Suc (Suc m)) * wallis (Suc m)
          = real (m + 1) / real (m + 2) * (wallis (Suc m) * wallis m)"
    by (simp add: wallis_Suc_Suc)
  also have "\<dots> = real (m + 1) / real (m + 2) * (pi / (2 * real (Suc m)))"
    by (simp only: Suc.IH)
  also have "\<dots> = pi / (2 * real (Suc (Suc m)))"
    using cancel_step [of "real (m + 1)" "real (m + 2)" pi] by simp
  finally show ?case .
qed

lemma wallis_pos: "0 < wallis m"
proof -
  have "0 < wallis m \<and> 0 < wallis (Suc m)"
  proof (induction m)
    case 0
    show ?case by (simp add: wallis_0 wallis_1)
  next
    case (Suc m)
    then show ?case by (simp add: wallis_Suc_Suc)
  qed
  then show ?thesis ..
qed

lemma wallis_square_le: "(wallis (Suc m))\<^sup>2 \<le> pi / (2 * real (Suc m))"
proof -
  have "(wallis (Suc m))\<^sup>2 = wallis (Suc m) * wallis (Suc m)"
    by (simp add: power2_eq_square)
  also have "\<dots> \<le> wallis (Suc m) * wallis m"
    by (intro mult_left_mono wallis_decreasing less_imp_le wallis_pos)
  also have "\<dots> = pi / (2 * real (Suc m))"
    by (rule wallis_product)
  finally show ?thesis .
qed

subsection \<open>The bound on the Gaussian integral\<close>

text \<open>
  From \<open>1 + u \<le> exp u\<close>, the integrand \<open>exp (- x\<^sup>2 / 2)\<close> is at most
  \<open>(1 + x\<^sup>2 / (2n))\<^sup>-\<^sup>n\<close>, whose integral is a cosine-power integral after the substitution
  \<open>x = sqrt (2n) tan t\<close>. Wallis' inequality then bounds the integral by
  \<open>sqrt (pi / 2) sqrt (1 + 1 / n)\<close> for every \<open>n\<close>.
\<close>

lemma exp_le_inverse_power:
  fixes u :: real
  shows "exp (- (real (Suc k) * u\<^sup>2)) \<le> (1 / (1 + u\<^sup>2)) ^ Suc k"
proof -
  have pos: "0 < 1 + u\<^sup>2" by (simp add: add_pos_nonneg)
  have "exp (- (u\<^sup>2)) \<le> 1 / (1 + u\<^sup>2)"
  proof -
    have "1 + u\<^sup>2 \<le> exp (u\<^sup>2)" by (rule exp_ge_add_one_self)
    then have "inverse (exp (u\<^sup>2)) \<le> inverse (1 + u\<^sup>2)"
      using pos by (intro le_imp_inverse_le)
    then show ?thesis by (simp add: exp_minus inverse_eq_divide)
  qed
  then have "exp (- (u\<^sup>2)) ^ Suc k \<le> (1 / (1 + u\<^sup>2)) ^ Suc k"
    by (intro power_mono) simp_all
  moreover have "exp (- (u\<^sup>2)) ^ Suc k = exp (- (real (Suc k) * u\<^sup>2))"
    using exp_of_nat_mult [of "Suc k" "- (u\<^sup>2)"] by simp
  ultimately show ?thesis by simp
qed

lemma cos_arctan_power: "cos (arctan u) ^ (2 * k) = (1 / (1 + u\<^sup>2)) ^ k"
proof -
  have pos: "0 \<le> 1 + u\<^sup>2" by (simp add: add_nonneg_nonneg)
  have "(cos (arctan u))\<^sup>2 = 1 / (1 + u\<^sup>2)"
    using pos by (simp add: cos_arctan power_divide)
  then show ?thesis by (simp add: power_mult)
qed

lemma gauss_int_le_cos_int:
  assumes "0 \<le> x"
  shows "gauss_int x \<le> sqrt (2 * real (Suc k)) * cos_int (2 * k) (arctan (x / sqrt (2 * real (Suc k))))"
proof -
  define s where "s = sqrt (2 * real (Suc k))"
  have s_pos: "0 < s" by (simp add: s_def)
  have s2: "s\<^sup>2 = 2 * real (Suc k)" by (simp add: s_def)
  define h where "h = (\<lambda>x. s * cos_int (2 * k) (arctan (x / s)) - gauss_int x)"
  have "h 0 \<le> h x"
  proof (rule DERIV_nonneg_imp_nondecreasing [of 0 x h, OF assms])
    fix y :: real
    let ?u = "y / s"
    have d1: "DERIV (\<lambda>x. arctan (x / s)) y :> inverse (1 + ?u\<^sup>2) * (1 / s)"
      by (rule DERIV_chain2 [OF DERIV_arctan]) (rule DERIV_cdivide, simp)
    have d2: "DERIV (\<lambda>x. cos_int (2 * k) (arctan (x / s))) y
                :> cos (arctan ?u) ^ (2 * k) * (inverse (1 + ?u\<^sup>2) * (1 / s))"
      by (rule DERIV_chain2 [OF cos_int_deriv d1])
    have d3: "DERIV (\<lambda>x. s * cos_int (2 * k) (arctan (x / s))) y
                :> s * (cos (arctan ?u) ^ (2 * k) * (inverse (1 + ?u\<^sup>2) * (1 / s)))"
      by (rule DERIV_cmult [OF d2])
    have e: "s * (cos (arctan ?u) ^ (2 * k) * (inverse (1 + ?u\<^sup>2) * (1 / s)))
               = (1 / (1 + ?u\<^sup>2)) ^ Suc k"
      using s_pos by (simp add: cos_arctan_power inverse_eq_divide)
    have d: "DERIV h y :> (1 / (1 + ?u\<^sup>2)) ^ Suc k - exp (- (y\<^sup>2) / 2)"
      unfolding h_def using d3 [unfolded e] gauss_int_deriv [of y] by (rule DERIV_diff)
    have "real (Suc k) * ?u\<^sup>2 = real (Suc k) * (y\<^sup>2 / (2 * real (Suc k)))"
      by (simp only: power_divide s2)
    also have "\<dots> = y\<^sup>2 / 2"
      by (simp del: of_nat_Suc)
    finally have "real (Suc k) * ?u\<^sup>2 = y\<^sup>2 / 2" .
    then have "exp (- (y\<^sup>2) / 2) = exp (- (real (Suc k) * ?u\<^sup>2))" by simp
    also have "\<dots> \<le> (1 / (1 + ?u\<^sup>2)) ^ Suc k" by (rule exp_le_inverse_power)
    finally have "0 \<le> (1 / (1 + ?u\<^sup>2)) ^ Suc k - exp (- (y\<^sup>2) / 2)" by simp
    with d show "\<exists>d. DERIV h y :> d \<and> 0 \<le> d" by blast
  qed
  then show ?thesis
    by (simp add: h_def s_def gauss_int_0 cos_int_0)
qed

lemma gauss_int_le_wallis:
  assumes "0 \<le> x"
  shows "gauss_int x \<le> sqrt (2 * real (Suc k)) * wallis (2 * k)"
proof -
  let ?s = "sqrt (2 * real (Suc k))"
  have "0 \<le> x / ?s" using assms by simp
  then have "0 \<le> arctan (x / ?s)" by simp
  moreover have "arctan (x / ?s) \<le> pi / 2" using arctan_ubound [of "x / ?s"] by simp
  ultimately have "cos_int (2 * k) (arctan (x / ?s)) \<le> wallis (2 * k)"
    by (rule cos_int_le_wallis)
  then have "?s * cos_int (2 * k) (arctan (x / ?s)) \<le> ?s * wallis (2 * k)"
    by (intro mult_left_mono) simp_all
  with gauss_int_le_cos_int [OF assms, of k] show ?thesis by (rule order_trans)
qed

lemma gauss_int_square_le:
  assumes "0 \<le> x"
  shows "(gauss_int x)\<^sup>2 \<le> pi / 2 + pi / 2 * inverse (real (Suc j))"
proof -
  let ?s = "sqrt (2 * real (Suc (Suc j)))"
  have g: "gauss_int x \<le> ?s * wallis (2 * Suc j)"
    by (rule gauss_int_le_wallis [OF assms])
  have "(gauss_int x)\<^sup>2 \<le> (?s * wallis (2 * Suc j))\<^sup>2"
    by (rule power_mono [OF g gauss_int_nonneg [OF assms]])
  also have "\<dots> = 2 * real (Suc (Suc j)) * (wallis (Suc (2 * j + 1)))\<^sup>2"
    by (simp add: power_mult_distrib)
  also have "\<dots> \<le> 2 * real (Suc (Suc j)) * (pi / (2 * real (Suc (2 * j + 1))))"
    by (intro mult_left_mono wallis_square_le) simp
  also have "\<dots> = pi / 2 + pi / 2 * inverse (real (Suc j))"
    by (simp add: field_simps)
  finally show ?thesis .
qed

lemma gauss_int_le:
  assumes "0 \<le> x"
  shows "gauss_int x \<le> sqrt (pi / 2)"
proof -
  have "(gauss_int x)\<^sup>2 \<le> pi / 2"
  proof (rule field_le_epsilon)
    fix e :: real assume e: "0 < e"
    then have "0 < e / (pi / 2)" by simp
    then obtain n where n: "inverse (real (Suc n)) < e / (pi / 2)"
      using reals_Archimedean by blast
    then have "pi / 2 * inverse (real (Suc n)) < e"
      by (simp add: field_simps)
    with gauss_int_square_le [OF assms, of n] show "(gauss_int x)\<^sup>2 \<le> pi / 2 + e"
      by simp
  qed
  then show ?thesis by (rule real_le_rsqrt)
qed

text \<open>
  In the other direction, \<open>(1 - x\<^sup>2 / (2n))\<^sup>n \<le> exp (- x\<^sup>2 / 2)\<close> on \<open>[0, sqrt (2n)]\<close>, and
  the substitution \<open>x = sqrt (2n) sin t\<close> gives a lower bound that tends to the same
  value \<open>sqrt (pi / 2)\<close>.
\<close>

lemma gauss_int_mono:
  assumes "x \<le> y"
  shows "gauss_int x \<le> gauss_int y"
proof (rule DERIV_nonneg_imp_nondecreasing [of x y gauss_int, OF assms])
  fix z :: real
  have "0 \<le> exp (- (z\<^sup>2) / 2)" by simp
  with gauss_int_deriv [of z] show "\<exists>d. DERIV gauss_int z :> d \<and> 0 \<le> d" by blast
qed

lemma power_le_exp:
  fixes u :: real
  assumes "u \<le> 1"
  shows "(1 - u) ^ n \<le> exp (- (real n * u))"
proof -
  have "1 - u \<le> exp (- u)"
    using exp_ge_add_one_self [of "- u"] by simp
  then have "(1 - u) ^ n \<le> exp (- u) ^ n"
    using assms by (intro power_mono) simp_all
  moreover have "exp (- u) ^ n = exp (- (real n * u))"
    using exp_of_nat_mult [of n "- u"] by simp
  ultimately show ?thesis by simp
qed

lemma gauss_int_ge_wallis: "sqrt (2 * real n) * wallis (2 * n + 1) \<le> gauss_int (sqrt (2 * real n))"
proof -
  define s where "s = sqrt (2 * real n)"
  have s_nonneg: "0 \<le> s" by (simp add: s_def)
  have s2: "s\<^sup>2 = 2 * real n" by (simp add: s_def)
  define F where "F = (\<lambda>t. gauss_int (s * sin t) - s * cos_int (2 * n + 1) t)"
  have "F 0 \<le> F (pi / 2)"
  proof (rule DERIV_nonneg_imp_nondecreasing [of 0 "pi / 2" F])
    show "(0::real) \<le> pi / 2" by simp
  next
    fix t :: real assume t: "0 \<le> t" "t \<le> pi / 2"
    then have c: "0 \<le> cos t" by (intro cos_ge_zero) simp_all
    have d0: "DERIV (\<lambda>t. s * sin t) t :> s * cos t"
      by (rule DERIV_cmult [OF DERIV_sin])
    have d1: "DERIV (\<lambda>t. gauss_int (s * sin t)) t :> exp (- ((s * sin t)\<^sup>2) / 2) * (s * cos t)"
      by (rule DERIV_chain2 [OF gauss_int_deriv d0])
    have d2: "DERIV (\<lambda>t. s * cos_int (2 * n + 1) t) t :> s * cos t ^ (2 * n + 1)"
      by (rule DERIV_cmult [OF cos_int_deriv])
    have d: "DERIV F t :> exp (- ((s * sin t)\<^sup>2) / 2) * (s * cos t) - s * cos t ^ (2 * n + 1)"
      unfolding F_def by (rule DERIV_diff [OF d1 d2])
    have sin2: "(sin t)\<^sup>2 \<le> 1"
      using sin_cos_squared_add [of t] zero_le_power2 [of "cos t"] by linarith
    have cos2: "(cos t)\<^sup>2 = 1 - (sin t)\<^sup>2"
      using sin_cos_squared_add [of t] by linarith
    have "cos t ^ (2 * n) = (1 - (sin t)\<^sup>2) ^ n"
      by (simp add: power_mult cos2)
    also have "\<dots> \<le> exp (- (real n * (sin t)\<^sup>2))"
      by (rule power_le_exp [OF sin2])
    also have "- (real n * (sin t)\<^sup>2) = - ((s * sin t)\<^sup>2) / 2"
      by (simp add: power_mult_distrib s2)
    finally have le: "cos t ^ (2 * n) \<le> exp (- ((s * sin t)\<^sup>2) / 2)" .
    have "s * cos t ^ (2 * n + 1) = (s * cos t) * cos t ^ (2 * n)"
      by simp
    also have "\<dots> \<le> (s * cos t) * exp (- ((s * sin t)\<^sup>2) / 2)"
      by (intro mult_left_mono le mult_nonneg_nonneg s_nonneg c)
    finally have "0 \<le> exp (- ((s * sin t)\<^sup>2) / 2) * (s * cos t) - s * cos t ^ (2 * n + 1)"
      by (simp add: mult.commute)
    with d show "\<exists>y. DERIV F t :> y \<and> 0 \<le> y" by blast
  qed
  then show ?thesis
    by (simp add: F_def s_def gauss_int_0 cos_int_0 wallis_def)
qed

lemma wallis_square_ge: "pi / (2 * real (Suc (Suc m))) \<le> (wallis (Suc m))\<^sup>2"
proof -
  have "pi / (2 * real (Suc (Suc m))) = wallis (Suc (Suc m)) * wallis (Suc m)"
    by (rule wallis_product [symmetric])
  also have "\<dots> \<le> wallis (Suc m) * wallis (Suc m)"
    by (intro mult_right_mono wallis_decreasing less_imp_le wallis_pos)
  finally show ?thesis by (simp add: power2_eq_square)
qed

lemma gauss_int_lower:
  assumes "sqrt (2 * real n) \<le> x"
  shows "sqrt (2 * pi) * (real n / (2 * real (Suc n))) \<le> gauss_int x"
proof -
  let ?s = "sqrt (2 * real n)"
  let ?b = "sqrt (2 * pi) * (real n / (2 * real (Suc n)))"
  have x: "0 \<le> x" using assms real_sqrt_ge_zero [of "2 * real n"] by linarith
  have w: "0 \<le> ?s * wallis (2 * n + 1)"
    by (intro mult_nonneg_nonneg) (simp_all add: less_imp_le wallis_pos)
  have "?s * wallis (2 * n + 1) \<le> gauss_int ?s" by (rule gauss_int_ge_wallis)
  also have "\<dots> \<le> gauss_int x" by (rule gauss_int_mono [OF assms])
  finally have g: "?s * wallis (2 * n + 1) \<le> gauss_int x" .
  have ratio: "real n / real (Suc n) \<le> 1" by simp
  have "?b\<^sup>2 = (sqrt (2 * pi))\<^sup>2 * (real n / (2 * real (Suc n)))\<^sup>2"
    by (rule power_mult_distrib)
  also have "(sqrt (2 * pi))\<^sup>2 = 2 * pi"
    by simp
  also have "2 * pi * (real n / (2 * real (Suc n)))\<^sup>2
               = (pi / 2) * ((real n / real (Suc n)) * (real n / real (Suc n)))"
    by (simp add: power2_eq_square del: of_nat_Suc)
  also have "(pi / 2) * ((real n / real (Suc n)) * (real n / real (Suc n)))
               \<le> (pi / 2) * ((real n / real (Suc n)) * 1)"
    by (intro mult_left_mono ratio) simp_all
  also have "\<dots> = 2 * real n * (pi / (2 * real (Suc (Suc (2 * n)))))"
    by (simp add: field_simps)
  also have "\<dots> \<le> 2 * real n * (wallis (Suc (2 * n)))\<^sup>2"
    by (intro mult_left_mono wallis_square_ge) simp
  also have "\<dots> = (?s * wallis (2 * n + 1))\<^sup>2"
    by (simp add: power_mult_distrib)
  also have "\<dots> \<le> (gauss_int x)\<^sup>2"
    by (rule power_mono [OF g w])
  finally have "?b\<^sup>2 \<le> (gauss_int x)\<^sup>2" .
  then show ?thesis
    by (rule power2_le_imp_le) (rule gauss_int_nonneg [OF x])
qed

subsection \<open>The distribution function\<close>

lemma std_normal_cdf_symmetric: "std_normal_cdf (- x) = 1 - std_normal_cdf x"
  by (simp add: std_normal_cdf_def gauss_int_minus)

lemma std_normal_cdf_0: "std_normal_cdf 0 = 1 / 2"
  by (simp add: std_normal_cdf_def gauss_int_0)

lemma std_normal_cdf_deriv: "DERIV std_normal_cdf x :> phi x"
proof -
  have "DERIV (\<lambda>x. 1 / 2 + gauss_int x / sqrt (2 * pi)) x :> 0 + exp (- (x\<^sup>2) / 2) / sqrt (2 * pi)"
    by (intro DERIV_add DERIV_cdivide DERIV_const gauss_int_deriv)
  then show ?thesis by (simp add: std_normal_cdf_def [abs_def] phi_def)
qed

lemma sqrt_half_pi_ratio: "sqrt (pi / 2) / sqrt (2 * pi) = 1 / 2"
proof -
  have "sqrt (pi / 2) / sqrt (2 * pi) = sqrt ((pi / 2) / (2 * pi))"
    by (simp only: real_sqrt_divide)
  also have "(pi / 2) / (2 * pi) = (1 / 2)\<^sup>2"
    by (simp add: power2_eq_square)
  also have "sqrt ((1 / 2)\<^sup>2) = 1 / 2"
    by simp
  finally show ?thesis .
qed

lemma std_normal_cdf_upper_half:
  assumes "0 \<le> x"
  shows "1 / 2 \<le> std_normal_cdf x \<and> std_normal_cdf x \<le> 1"
proof -
  have pos: "0 < sqrt (2 * pi)" by simp
  have lower: "0 \<le> gauss_int x / sqrt (2 * pi)"
    using gauss_int_nonneg [OF assms] by simp
  have "gauss_int x / sqrt (2 * pi) \<le> sqrt (pi / 2) / sqrt (2 * pi)"
    by (rule divide_right_mono [OF gauss_int_le [OF assms]]) simp
  then have upper: "gauss_int x / sqrt (2 * pi) \<le> 1 / 2"
    by (simp only: sqrt_half_pi_ratio)
  from lower upper show ?thesis
    unfolding std_normal_cdf_def by linarith
qed

lemma std_normal_cdf_range: "0 \<le> std_normal_cdf x \<and> std_normal_cdf x \<le> 1"
proof (cases "0 \<le> x")
  case True
  with std_normal_cdf_upper_half [of x] show ?thesis by simp
next
  case False
  then have "0 \<le> - x" by simp
  from std_normal_cdf_upper_half [OF this] show ?thesis
    by (simp add: std_normal_cdf_symmetric)
qed

lemma norm_cdf_range: "0 \<le> norm_cdf d \<and> norm_cdf d \<le> 1"
  by (cases d) (simp_all add: std_normal_cdf_range)

lemma norm_cdf_xneg: "norm_cdf (xneg d) = 1 - norm_cdf d"
  by (cases d) (simp_all add: std_normal_cdf_symmetric)

text \<open>The tails: beyond \<open>sqrt (2n)\<close> the distribution function is within
  \<open>1 / (2 (n + 1))\<close> of its limit.\<close>

lemma std_normal_cdf_upper_tail:
  assumes "sqrt (2 * real n) \<le> x"
  shows "1 - 1 / (2 * real (Suc n)) \<le> std_normal_cdf x"
proof -
  have pos: "0 < sqrt (2 * pi)" by simp
  have "real n / (2 * real (Suc n)) = sqrt (2 * pi) * (real n / (2 * real (Suc n))) / sqrt (2 * pi)"
    using pos by simp
  also have "\<dots> \<le> gauss_int x / sqrt (2 * pi)"
    by (rule divide_right_mono [OF gauss_int_lower [OF assms]]) simp
  finally have "real n / (2 * real (Suc n)) \<le> gauss_int x / sqrt (2 * pi)" .
  moreover have "1 - 1 / (2 * real (Suc n)) = 1 / 2 + real n / (2 * real (Suc n))"
    by (simp add: field_simps)
  ultimately show ?thesis
    unfolding std_normal_cdf_def by linarith
qed

lemma std_normal_cdf_lower_tail:
  assumes "x \<le> - sqrt (2 * real n)"
  shows "std_normal_cdf x \<le> 1 / (2 * real (Suc n))"
proof -
  from assms have "sqrt (2 * real n) \<le> - x" by simp
  from std_normal_cdf_upper_tail [OF this] show ?thesis
    by (simp add: std_normal_cdf_symmetric)
qed

section \<open>The moneyness helper\<close>

lemma d1_d2_general:
  "0 < T \<Longrightarrow> 0 < sigma \<Longrightarrow> K \<noteq> 0 \<Longrightarrow>
   calculate_d1_d2 S K T r sigma =
     Inr (Fin ((ln (S / K) + (r + 0.5 * sigma\<^sup>2) * T) / (sigma * sqrt T)),
          Fin ((ln (S / K) + (r + 0.5 * sigma\<^sup>2) * T) / (sigma * sqrt T) - sigma * sqrt T))"
  by (simp add: calculate_d1_d2_def Let_def)

lemma d1_d2_boundary:
  "T \<le> 0 \<or> sigma \<le> 0 \<Longrightarrow>
   calculate_d1_d2 S K T r sigma = (if S > K then Inr (PosInf, PosInf) else Inr (NegInf, NegInf))"
  by (simp add: calculate_d1_d2_def)

lemma d1_d2_returns:
  "K \<noteq> 0 \<Longrightarrow> \<exists>d1 d2. calculate_d1_d2 S K T r sigma = Inr (d1, d2)"
  by (simp add: calculate_d1_d2_def Let_def)

text \<open>With a non-zero strike, the three Greeks that take an option type return a number
  for every option-type string.\<close>

lemma returns_if_no_error: "(\<And>e. x \<noteq> Inl e) \<Longrightarrow> \<exists>v. x = Inr v"
  by (cases x) auto

lemma delta_returns:
  assumes "K \<noteq> 0"
  shows "\<exists>v. delta S K T r sigma option_type = Inr v"
proof -
  obtain d1 d2 where d: "calculate_d1_d2 S K T r sigma = Inr (d1, d2)"
    using d1_d2_returns [OF assms] by blast
  show ?thesis
    by (rule returns_if_no_error) (simp add: delta_def d)
qed

lemma theta_returns:
  assumes "K \<noteq> 0"
  shows "\<exists>v. theta S K T r sigma option_type = Inr v"
proof -
  obtain d1 d2 where d: "calculate_d1_d2 S K T r sigma = Inr (d1, d2)"
    using d1_d2_returns [OF assms] by blast
  show ?thesis
    by (rule returns_if_no_error) (simp add: theta_def d Let_def)
qed

lemma rho_returns:
  assumes "K \<noteq> 0"
  shows "\<exists>v. rho S K T r sigma option_type = Inr v"
proof -
  obtain d1 d2 where d: "calculate_d1_d2 S K T r sigma = Inr (d1, d2)"
    using d1_d2_returns [OF assms] by blast
  show ?thesis
    by (rule returns_if_no_error) (simp add: rho_def d)
qed

text \<open>The price in the general branch, in terms of \<open>call_value\<close>.\<close>

lemma d1_d2_of:
  assumes "0 < T" "0 < sigma" "K \<noteq> 0"
  shows "calculate_d1_d2 S K T r sigma =
           Inr (Fin (d1_of S K T r sigma), Fin (d1_of S K T r sigma - sigma * sqrt T))"
  using assms by (simp add: calculate_d1_d2_def Let_def d1_of_def)

lemma price_call_general:
  assumes "0 < T" "0 < sigma" "K \<noteq> 0"
  shows "black_scholes_price S K T r sigma ''call'' = Inr (call_value S K T r sigma)"
  using assms(1) by (simp add: black_scholes_price_def d1_d2_of [OF assms] call_value_def)

lemma price_put_general:
  assumes "0 < T" "0 < sigma" "K \<noteq> 0"
  shows "black_scholes_price S K T r sigma ''put''
           = Inr (call_value S K T r sigma - S + K * exp (- r * T))"
proof -
  let ?d1 = "Fin (d1_of S K T r sigma)"
  let ?d2 = "Fin (d1_of S K T r sigma - sigma * sqrt T)"
  have "black_scholes_price S K T r sigma ''put''
          = Inr (K * exp (- r * T) * norm_cdf (xneg ?d2) - S * norm_cdf (xneg ?d1))"
    using assms(1) by (simp add: black_scholes_price_def d1_d2_of [OF assms] del: xneg.simps)
  also have "K * exp (- r * T) * norm_cdf (xneg ?d2) - S * norm_cdf (xneg ?d1)
               = call_value S K T r sigma - S + K * exp (- r * T)"
    unfolding norm_cdf_xneg by (simp add: call_value_def algebra_simps)
  finally show ?thesis .
qed

section \<open>Put-call parity\<close>

text \<open>
  C1. For \<open>S > 0\<close>, \<open>K > 0\<close>, \<open>T > 0\<close>, \<open>sigma > 0\<close> and any \<open>r\<close>, the call price
  minus the put price equals \<open>S - K exp (- r T)\<close>, in exact real arithmetic.
\<close>

theorem put_call_parity:
  assumes "0 < S" "0 < K" "0 < T" "0 < sigma"
  shows "\<exists>c p. black_scholes_price S K T r sigma ''call'' = Inr c
           \<and> black_scholes_price S K T r sigma ''put'' = Inr p
           \<and> c - p = S - K * exp (- r * T)"
proof -
  from assms have K: "K \<noteq> 0" by simp
  obtain d1 d2 where d: "calculate_d1_d2 S K T r sigma = Inr (d1, d2)"
    using d1_d2_returns [OF K] by blast
  have c: "black_scholes_price S K T r sigma ''call'' =
             Inr (S * norm_cdf d1 - K * exp (- r * T) * norm_cdf d2)"
    using assms(3) by (simp add: black_scholes_price_def d)
  have p: "black_scholes_price S K T r sigma ''put'' =
             Inr (K * exp (- r * T) * (1 - norm_cdf d2) - S * (1 - norm_cdf d1))"
    using assms(3) by (simp add: black_scholes_price_def d norm_cdf_xneg)
  have "(S * norm_cdf d1 - K * exp (- r * T) * norm_cdf d2)
          - (K * exp (- r * T) * (1 - norm_cdf d2) - S * (1 - norm_cdf d1))
        = S - K * exp (- r * T)"
    by (simp add: algebra_simps)
  with c p show ?thesis by blast
qed

text \<open>Parity at \<open>S = 100\<close>, \<open>K = 105\<close>, \<open>T = 1\<close>, \<open>r = 0.05\<close>, \<open>sigma = 0.2\<close>.\<close>

theorem put_call_parity_witness:
  "\<exists>c p. black_scholes_price 100 105 1 (1/20) (1/5) ''call'' = Inr c
     \<and> black_scholes_price 100 105 1 (1/20) (1/5) ''put'' = Inr p
     \<and> c - p = 100 - 105 * exp (- (1/20) * 1)"
  using put_call_parity [of 100 105 1 "1/5" "1/20"]
  by simp

section \<open>Behaviour at expiry\<close>

text \<open>
  C2. At \<open>T = 0\<close> the price is the intrinsic value, \<open>max 0 (S - K)\<close> for a call and
  \<open>max 0 (K - S)\<close> for a put; gamma, vega, theta and rho are 0; the call delta is 1 if
  \<open>S > K\<close> and 0 otherwise; the put delta is \<open>-1\<close> if \<open>S < K\<close> and 0 otherwise. This
  holds for all \<open>S\<close>, \<open>K\<close>, \<open>r\<close> and \<open>sigma\<close>, so in particular for \<open>S > 0\<close>,
  \<open>K > 0\<close> and \<open>sigma \<ge> 0\<close>.
\<close>

theorem expiry_collapse:
  "black_scholes_price S K 0 r sigma ''call'' = Inr (max 0 (S - K))
   \<and> black_scholes_price S K 0 r sigma ''put'' = Inr (max 0 (K - S))
   \<and> gamma S K 0 r sigma = Inr 0
   \<and> vega S K 0 r sigma = Inr 0
   \<and> theta S K 0 r sigma option_type = Inr 0
   \<and> rho S K 0 r sigma option_type = Inr 0
   \<and> delta S K 0 r sigma ''call'' = Inr (if S > K then 1 else 0)
   \<and> delta S K 0 r sigma ''put'' = Inr (if S < K then - 1 else 0)"
  by (simp add: black_scholes_price_def gamma_def vega_def theta_def rho_def delta_def)

text \<open>At \<open>S = 100\<close>, \<open>K = 105\<close>: the call is worth 0, the put 5, and the deltas are 0
  and \<open>-1\<close>.\<close>

theorem expiry_collapse_witness:
  "black_scholes_price 100 105 0 (1/20) (1/5) ''call'' = Inr 0
   \<and> black_scholes_price 100 105 0 (1/20) (1/5) ''put'' = Inr 5
   \<and> gamma 100 105 0 (1/20) (1/5) = Inr 0
   \<and> vega 100 105 0 (1/20) (1/5) = Inr 0
   \<and> theta 100 105 0 (1/20) (1/5) ''call'' = Inr 0
   \<and> rho 100 105 0 (1/20) (1/5) ''call'' = Inr 0
   \<and> delta 100 105 0 (1/20) (1/5) ''call'' = Inr 0
   \<and> delta 100 105 0 (1/20) (1/5) ''put'' = Inr (- 1)"
  using expiry_collapse [of 100 105 "1/20" "1/5" "''call''"]
  by simp

text \<open>
  C9. Whenever \<open>T \<le> 0\<close>, the price function returns before the option type is checked:
  \<open>max 0 (S - K)\<close> when the option type is \<open>call\<close> and \<open>max 0 (K - S)\<close> for every other
  string; it never raises.
\<close>

theorem expiry_early_return:
  assumes "T \<le> 0"
  shows "black_scholes_price S K T r sigma option_type =
           (if option_type = ''call'' then Inr (max 0 (S - K)) else Inr (max 0 (K - S)))"
  using assms by (simp add: black_scholes_price_def)

theorem expiry_early_return_witness:
  "(- 1 :: real) \<le> 0 \<and> black_scholes_price 3 5 (- 1) 0 1 ''straddle'' = Inr 2"
  using expiry_early_return [of "- 1" 3 5 0 1 "''straddle''"]
  by simp

text \<open>At expiry the price is clamped at zero and monotone in the spot.\<close>

lemma price_at_expiry_nonneg:
  "T \<le> 0 \<Longrightarrow> black_scholes_price S K T r sigma option_type = Inr p \<Longrightarrow> 0 \<le> p"
  by (auto simp add: black_scholes_price_def split: if_splits)

lemma price_at_expiry_monotone:
  assumes "T \<le> 0" "S1 \<le> S2"
  shows "\<exists>c1 c2 p1 p2.
           black_scholes_price S1 K T r sigma ''call'' = Inr c1
         \<and> black_scholes_price S2 K T r sigma ''call'' = Inr c2 \<and> c1 \<le> c2
         \<and> black_scholes_price S1 K T r sigma ''put'' = Inr p1
         \<and> black_scholes_price S2 K T r sigma ''put'' = Inr p2 \<and> p2 \<le> p1"
  using assms by (auto simp add: black_scholes_price_def max_def)

section \<open>Invalid option types\<close>

text \<open>
  C3, as stated: for valid numeric inputs and an option type outside \<open>{call, put}\<close>, each
  of price, delta, theta and rho signals an invalid-option-type error. This fails for
  delta: at \<open>S = K = 1\<close>, \<open>T = 1\<close>, \<open>r = 0\<close>, \<open>sigma = 1\<close> (so \<open>d1 = 1/2\<close>) and the
  option type \<open>straddle\<close>, delta returns the put value \<open>std_normal_cdf (1/2) - 1\<close>.
\<close>

theorem delta_accepts_any_option_type:
  "delta 1 1 1 0 1 ''straddle'' = Inr (std_normal_cdf (1 / 2) - 1)"
  by (simp add: delta_def calculate_d1_d2_def Let_def)

text \<open>
  C3, amended. For \<open>S > 0\<close>, \<open>K > 0\<close>, \<open>T \<ge> 0\<close>, \<open>sigma \<ge> 0\<close>, any \<open>r\<close> and an option
  type outside \<open>{call, put}\<close>: price signals the invalid-option-type error when \<open>T > 0\<close>;
  delta, theta and rho signal no error and return the number they return for \<open>put\<close>.
\<close>

theorem invalid_option_type:
  assumes "0 < S" "0 < K" "0 \<le> T" "0 \<le> sigma"
    and "option_type \<noteq> ''call''" "option_type \<noteq> ''put''"
  shows "(0 < T \<longrightarrow> black_scholes_price S K T r sigma option_type = Inl ValueError)
       \<and> delta S K T r sigma option_type = delta S K T r sigma ''put''
       \<and> theta S K T r sigma option_type = theta S K T r sigma ''put''
       \<and> rho S K T r sigma option_type = rho S K T r sigma ''put''
       \<and> (\<exists>d t q. delta S K T r sigma option_type = Inr d
                \<and> theta S K T r sigma option_type = Inr t
                \<and> rho S K T r sigma option_type = Inr q)"
proof -
  from assms(2) have K: "K \<noteq> 0" by simp
  obtain d1 d2 where d: "calculate_d1_d2 S K T r sigma = Inr (d1, d2)"
    using d1_d2_returns [OF K] by blast
  have price: "0 < T \<longrightarrow> black_scholes_price S K T r sigma option_type = Inl ValueError"
    using assms(5,6) by (simp add: black_scholes_price_def d)
  have eqs: "delta S K T r sigma option_type = delta S K T r sigma ''put''"
    "theta S K T r sigma option_type = theta S K T r sigma ''put''"
    "rho S K T r sigma option_type = rho S K T r sigma ''put''"
    using assms(5) by (simp_all add: delta_def theta_def rho_def d)
  from price eqs delta_returns [OF K, of S T r sigma option_type]
    theta_returns [OF K, of S T r sigma option_type]
    rho_returns [OF K, of S T r sigma option_type]
  show ?thesis by blast
qed

theorem invalid_option_type_witness:
  "black_scholes_price 100 105 1 (1/20) (1/5) ''straddle'' = Inl ValueError
   \<and> delta 100 105 1 (1/20) (1/5) ''straddle''
       = delta 100 105 1 (1/20) (1/5) ''put''
   \<and> (\<exists>d t q. delta 100 105 1 (1/20) (1/5) ''straddle'' = Inr d
            \<and> theta 100 105 1 (1/20) (1/5) ''straddle'' = Inr t
            \<and> rho 100 105 1 (1/20) (1/5) ''straddle'' = Inr q)"
proof -
  have pos: "0 < (1::real)" by simp
  have "(0 < (1::real) \<longrightarrow>
           black_scholes_price 100 105 1 (1/20) (1/5) ''straddle'' = Inl ValueError)
       \<and> delta 100 105 1 (1/20) (1/5) ''straddle''
           = delta 100 105 1 (1/20) (1/5) ''put''
       \<and> theta 100 105 1 (1/20) (1/5) ''straddle''
           = theta 100 105 1 (1/20) (1/5) ''put''
       \<and> rho 100 105 1 (1/20) (1/5) ''straddle''
           = rho 100 105 1 (1/20) (1/5) ''put''
       \<and> (\<exists>d t q. delta 100 105 1 (1/20) (1/5) ''straddle'' = Inr d
                \<and> theta 100 105 1 (1/20) (1/5) ''straddle'' = Inr t
                \<and> rho 100 105 1 (1/20) (1/5) ''straddle'' = Inr q)"
    by (rule invalid_option_type) simp_all
  with pos show ?thesis by blast
qed

text \<open>
  C4. The price function is to fail with an invalid-argument error whenever the option
  type is neither \<open>call\<close> nor \<open>put\<close>, for every \<open>T \<ge> 0\<close>. At \<open>T = 0\<close> the early return
  for expired options comes before the check that the general branch makes: with
  \<open>S = 100\<close>, \<open>K = 105\<close>, \<open>T = 0\<close>, \<open>r = 0.05\<close>, \<open>sigma = 0.2\<close> the option type
  \<open>straddle\<close> is priced as a put, at 5.
\<close>

theorem price_at_expiry_skips_type_check:
  "black_scholes_price 100 105 0 (1/20) (1/5) ''straddle'' = Inr 5"
  by (simp add: black_scholes_price_def)

section \<open>Bounds on the Greeks\<close>

text \<open>
  C5. For \<open>S > 0\<close>, \<open>K > 0\<close>, \<open>T \<ge> 0\<close>, \<open>sigma \<ge> 0\<close> and any \<open>r\<close>, the call delta lies
  in \<open>[0, 1]\<close> and the put delta in \<open>[-1, 0]\<close>.
\<close>

theorem delta_bounds:
  assumes "0 < S" "0 < K" "0 \<le> T" "0 \<le> sigma"
  shows "\<exists>dc dp. delta S K T r sigma ''call'' = Inr dc \<and> 0 \<le> dc \<and> dc \<le> 1
           \<and> delta S K T r sigma ''put'' = Inr dp \<and> - 1 \<le> dp \<and> dp \<le> 0"
proof (cases "T \<le> 0")
  case True
  then show ?thesis by (simp add: delta_def)
next
  case False
  from assms(2) have K: "K \<noteq> 0" by simp
  obtain d1 d2 where d: "calculate_d1_d2 S K T r sigma = Inr (d1, d2)"
    using d1_d2_returns [OF K] by blast
  from False norm_cdf_range [of d1] show ?thesis
    by (simp add: delta_def d)
qed

theorem delta_bounds_witness:
  "\<exists>dc dp. delta 100 105 1 (1/20) (1/5) ''call'' = Inr dc \<and> 0 \<le> dc \<and> dc \<le> 1
     \<and> delta 100 105 1 (1/20) (1/5) ''put'' = Inr dp \<and> - 1 \<le> dp \<and> dp \<le> 0"
  using delta_bounds [of 100 105 1 "1/5" "1/20"]
  by simp

text \<open>
  C6. For \<open>S > 0\<close>, \<open>K > 0\<close>, \<open>T \<ge> 0\<close>, \<open>sigma \<ge> 0\<close> and any \<open>r\<close>, gamma and vega are
  non-negative: both are 0 on the boundary \<open>T \<le> 0\<close> or \<open>sigma \<le> 0\<close>, and otherwise
  they are \<open>phi d1 / (S sigma sqrt T)\<close> and \<open>S phi d1 sqrt T\<close>.
\<close>

theorem gamma_vega_nonneg:
  assumes "0 < S" "0 < K" "0 \<le> T" "0 \<le> sigma"
  shows "\<exists>g v. gamma S K T r sigma = Inr g \<and> 0 \<le> g
           \<and> vega S K T r sigma = Inr v \<and> 0 \<le> v
           \<and> (T \<le> 0 \<or> sigma \<le> 0 \<longrightarrow> g = 0 \<and> v = 0)
           \<and> (0 < T \<and> 0 < sigma \<longrightarrow>
                (\<exists>d1 d2. calculate_d1_d2 S K T r sigma = Inr (Fin d1, d2)
                   \<and> g = phi d1 / (S * sigma * sqrt T)
                   \<and> v = S * phi d1 * sqrt T))"
proof (cases "T \<le> 0 \<or> sigma \<le> 0")
  case True
  then show ?thesis by (auto simp add: gamma_def vega_def)
next
  case False
  then have pos: "0 < T" "0 < sigma" by simp_all
  from assms(2) have K: "K \<noteq> 0" by simp
  from pos assms(1) show ?thesis
    by (simp add: gamma_def vega_def d1_d2_general [OF pos K] phi_nonneg)
qed

theorem gamma_vega_nonneg_witness:
  "(\<exists>g v. gamma 100 105 1 (1/20) (1/5) = Inr g \<and> 0 \<le> g
      \<and> vega 100 105 1 (1/20) (1/5) = Inr v \<and> 0 \<le> v
      \<and> (\<exists>d1. g = phi d1 / (100 * (1/5) * sqrt 1) \<and> v = 100 * phi d1 * sqrt 1))
   \<and> gamma 100 105 1 (1/20) 0 = Inr 0 \<and> vega 100 105 1 (1/20) 0 = Inr 0"
  using gamma_vega_nonneg [of 100 105 1 "1/5" "1/20"] gamma_vega_nonneg [of 100 105 1 0 "1/20"]
  by auto

section \<open>Zero volatility before expiry\<close>

text \<open>
  C10. For \<open>S > 0\<close>, \<open>K > 0\<close>, \<open>T > 0\<close> and \<open>sigma \<le> 0\<close>, the helper returns
  \<open>(+\<infinity>, +\<infinity>)\<close> when \<open>S > K\<close> and \<open>(-\<infinity>, -\<infinity>)\<close> when \<open>S \<le> K\<close>; the price is then
  \<open>S - K exp (- r T)\<close> for a call and 0 for a put when \<open>S > K\<close>, and 0 for a call and
  \<open>K exp (- r T) - S\<close> for a put when \<open>S \<le> K\<close>.
\<close>

theorem zero_volatility_limits:
  assumes "0 < S" "0 < K" "0 < T" "sigma \<le> 0"
  shows "(S > K \<longrightarrow>
            calculate_d1_d2 S K T r sigma = Inr (PosInf, PosInf)
          \<and> black_scholes_price S K T r sigma ''call'' = Inr (S - K * exp (- r * T))
          \<and> black_scholes_price S K T r sigma ''put'' = Inr 0)
       \<and> (S \<le> K \<longrightarrow>
            calculate_d1_d2 S K T r sigma = Inr (NegInf, NegInf)
          \<and> black_scholes_price S K T r sigma ''call'' = Inr 0
          \<and> black_scholes_price S K T r sigma ''put'' = Inr (K * exp (- r * T) - S))"
  using assms by (simp add: black_scholes_price_def d1_d2_boundary)

theorem zero_volatility_limits_witness:
  "calculate_d1_d2 110 100 1 (1/20) 0 = Inr (PosInf, PosInf)
   \<and> black_scholes_price 110 100 1 (1/20) 0 ''call''
       = Inr (110 - 100 * exp (- (1/20) * 1))
   \<and> black_scholes_price 110 100 1 (1/20) 0 ''put'' = Inr 0
   \<and> calculate_d1_d2 90 100 1 (1/20) 0 = Inr (NegInf, NegInf)
   \<and> black_scholes_price 90 100 1 (1/20) 0 ''call'' = Inr 0
   \<and> black_scholes_price 90 100 1 (1/20) 0 ''put''
       = Inr (100 * exp (- (1/20) * 1) - 90)"
  using zero_volatility_limits [of 110 100 1 0 "1/20"]
    zero_volatility_limits [of 90 100 1 0 "1/20"]
  by simp

section \<open>The price as a function of the spot, for positive volatility\<close>

text \<open>
  For \<open>T > 0\<close> and \<open>sigma > 0\<close> the derivative of the call price in the spot is
  \<open>norm.cdf d1\<close>, because \<open>K exp (- r T) phi d2 = S phi d1\<close>. So the call price is
  non-decreasing and the put price non-increasing in the spot.
\<close>

lemma phi_shift: "phi (d - v) = phi d * exp (d * v - v\<^sup>2 / 2)"
proof -
  have e: "- ((d - v)\<^sup>2) / 2 = - (d\<^sup>2) / 2 + (d * v - v\<^sup>2 / 2)"
    by (simp add: power2_eq_square field_simps)
  have "exp (- ((d - v)\<^sup>2) / 2) = exp (- (d\<^sup>2) / 2) * exp (d * v - v\<^sup>2 / 2)"
    by (simp only: e exp_add)
  then show ?thesis
    unfolding phi_def by simp
qed

lemma discounted_strike_density:
  assumes "0 < S" "0 < K"
    and dv: "d * v - v\<^sup>2 / 2 = ln (S / K) + r * T"
  shows "K * exp (- r * T) * phi (d - v) = S * phi d"
proof -
  have "exp (d * v - v\<^sup>2 / 2) = S / K * exp (r * T)"
    using assms(1,2) by (simp add: dv exp_add)
  then have "K * exp (- r * T) * phi (d - v) = K * exp (- r * T) * (phi d * (S / K * exp (r * T)))"
    by (simp only: phi_shift)
  also have "\<dots> = S * phi d * (exp (- r * T) * exp (r * T))"
    using assms(2) by simp
  also have "exp (- r * T) * exp (r * T) = 1"
    by (simp add: exp_add [symmetric])
  finally show ?thesis by simp
qed

lemma divide_mult_cancel: "v \<noteq> 0 \<Longrightarrow> X / v * v = (X::real)"
  by simp

lemma moneyness_shift:
  assumes "0 < T" "0 < sigma"
  shows "(ln (S / K) + (r + 0.5 * sigma\<^sup>2) * T) / (sigma * sqrt T) * (sigma * sqrt T)
           - (sigma * sqrt T)\<^sup>2 / 2 = ln (S / K) + r * T"
proof -
  have "sigma * sqrt T \<noteq> 0" using assms by simp
  then have a: "(ln (S / K) + (r + 0.5 * sigma\<^sup>2) * T) / (sigma * sqrt T) * (sigma * sqrt T)
               = ln (S / K) + (r + 0.5 * sigma\<^sup>2) * T"
    by (rule divide_mult_cancel)
  have b: "(sigma * sqrt T)\<^sup>2 = sigma\<^sup>2 * T"
    using assms by (simp add: power_mult_distrib)
  show ?thesis
    unfolding a b by (simp add: algebra_simps)
qed

lemma d1_of_deriv:
  assumes "0 < S" "0 < K"
  shows "DERIV (\<lambda>S. d1_of S K T r sigma) S :> (1 / S) / (sigma * sqrt T)"
proof -
  have "DERIV (\<lambda>S. ln (S / K)) S :> 1 / S"
    using assms by (auto intro!: derivative_eq_intros simp: field_simps)
  then have "DERIV (\<lambda>S. ln (S / K) + (r + 0.5 * sigma\<^sup>2) * T) S :> 1 / S + 0"
    by (intro DERIV_add DERIV_const)
  then have "DERIV (\<lambda>S. (ln (S / K) + (r + 0.5 * sigma\<^sup>2) * T) / (sigma * sqrt T)) S
               :> (1 / S + 0) / (sigma * sqrt T)"
    by (rule DERIV_cdivide)
  then show ?thesis by (simp add: d1_of_def [abs_def])
qed

lemma call_value_deriv:
  assumes "0 < S" "0 < K" "0 < T" "0 < sigma"
  shows "DERIV (\<lambda>S. call_value S K T r sigma) S :> std_normal_cdf (d1_of S K T r sigma)"
proof -
  let ?v = "sigma * sqrt T"
  let ?d = "d1_of S K T r sigma"
  let ?q = "(1 / S) / ?v"
  have dd: "DERIV (\<lambda>S. d1_of S K T r sigma) S :> ?q"
    by (rule d1_of_deriv [OF assms(1,2)])
  have dd2: "DERIV (\<lambda>S. d1_of S K T r sigma - ?v) S :> ?q - 0"
    by (intro DERIV_diff dd DERIV_const)
  have c1: "DERIV (\<lambda>S. std_normal_cdf (d1_of S K T r sigma)) S :> phi ?d * ?q"
    by (rule DERIV_chain2 [OF std_normal_cdf_deriv dd])
  have c2: "DERIV (\<lambda>S. std_normal_cdf (d1_of S K T r sigma - ?v)) S :> phi (?d - ?v) * (?q - 0)"
    by (rule DERIV_chain2 [OF std_normal_cdf_deriv dd2])
  have t1: "DERIV (\<lambda>S. S * std_normal_cdf (d1_of S K T r sigma)) S
              :> 1 * std_normal_cdf ?d + phi ?d * ?q * S"
    by (rule DERIV_mult [OF DERIV_ident c1])
  have t2: "DERIV (\<lambda>S. K * exp (- r * T) * std_normal_cdf (d1_of S K T r sigma - ?v)) S
              :> K * exp (- r * T) * (phi (?d - ?v) * (?q - 0))"
    by (rule DERIV_cmult [OF c2])
  have all: "DERIV (\<lambda>S. call_value S K T r sigma) S
              :> (1 * std_normal_cdf ?d + phi ?d * ?q * S) - K * exp (- r * T) * (phi (?d - ?v) * (?q - 0))"
    unfolding call_value_def [abs_def] by (rule DERIV_diff [OF t1 t2])
  have "?d * ?v - ?v\<^sup>2 / 2 = ln (S / K) + r * T"
    unfolding d1_of_def by (rule moneyness_shift [OF assms(3,4)])
  then have key: "K * exp (- r * T) * phi (?d - ?v) = S * phi ?d"
    by (rule discounted_strike_density [OF assms(1,2)])
  have "K * exp (- r * T) * (phi (?d - ?v) * (?q - 0)) = (K * exp (- r * T) * phi (?d - ?v)) * ?q"
    by simp
  also have "\<dots> = S * phi ?d * ?q" by (simp only: key)
  finally have "(1 * std_normal_cdf ?d + phi ?d * ?q * S) - K * exp (- r * T) * (phi (?d - ?v) * (?q - 0))
                  = std_normal_cdf ?d"
    by simp
  with all show ?thesis by simp
qed

lemma call_value_monotone:
  assumes "0 < K" "0 < T" "0 < sigma" "0 < S1" "S1 \<le> S2"
  shows "call_value S1 K T r sigma \<le> call_value S2 K T r sigma"
proof (rule DERIV_nonneg_imp_nondecreasing [of S1 S2 "\<lambda>S. call_value S K T r sigma", OF assms(5)])
  fix x :: real assume "S1 \<le> x" "x \<le> S2"
  with assms(4) have x: "0 < x" by simp
  from call_value_deriv [OF x assms(1,2,3)] std_normal_cdf_range [of "d1_of x K T r sigma"]
  show "\<exists>y. DERIV (\<lambda>S. call_value S K T r sigma) x :> y \<and> 0 \<le> y" by blast
qed

lemma put_value_monotone:
  assumes "0 < K" "0 < T" "0 < sigma" "0 < S1" "S1 \<le> S2"
  shows "call_value S2 K T r sigma - S2 + K * exp (- r * T)
           \<le> call_value S1 K T r sigma - S1 + K * exp (- r * T)"
proof (rule DERIV_nonpos_imp_nonincreasing
    [of S1 S2 "\<lambda>S. call_value S K T r sigma - S + K * exp (- r * T)", OF assms(5)])
  fix x :: real assume "S1 \<le> x" "x \<le> S2"
  with assms(4) have x: "0 < x" by simp
  have "DERIV (\<lambda>S. call_value S K T r sigma - S + K * exp (- r * T)) x
          :> std_normal_cdf (d1_of x K T r sigma) - 1 + 0"
    by (intro DERIV_add DERIV_diff DERIV_const DERIV_ident call_value_deriv [OF x assms(1,2,3)])
  moreover have "std_normal_cdf (d1_of x K T r sigma) - 1 + 0 \<le> 0"
    using std_normal_cdf_range [of "d1_of x K T r sigma"] by simp
  ultimately show "\<exists>y. DERIV (\<lambda>S. call_value S K T r sigma - S + K * exp (- r * T)) x :> y \<and> y \<le> 0"
    by blast
qed

lemma price_monotone_positive_volatility:
  assumes "0 < K" "0 < T" "0 < sigma" "0 < S1" "S1 \<le> S2"
  shows "\<exists>c1 c2 p1 p2.
           black_scholes_price S1 K T r sigma ''call'' = Inr c1
         \<and> black_scholes_price S2 K T r sigma ''call'' = Inr c2 \<and> c1 \<le> c2
         \<and> black_scholes_price S1 K T r sigma ''put'' = Inr p1
         \<and> black_scholes_price S2 K T r sigma ''put'' = Inr p2 \<and> p2 \<le> p1"
proof -
  from assms(1) have K: "K \<noteq> 0" by simp
  show ?thesis
    using call_value_monotone [OF assms] put_value_monotone [OF assms]
    by (simp add: price_call_general [OF assms(2,3) K] price_put_general [OF assms(2,3) K])
qed

text \<open>
  Non-negativity for \<open>T > 0\<close> and \<open>sigma > 0\<close>: the function
  \<open>e \<mapsto> exp (v e + v\<^sup>2 / 2) norm.cdf (e + v) - norm.cdf e\<close> is non-decreasing and
  bounded below by \<open>- norm.cdf e\<close>, which tends to 0 at \<open>-\<infinity>\<close>.
\<close>

lemma tilted_cdf_deriv:
  "DERIV (\<lambda>e. exp (v * e + v\<^sup>2 / 2) * std_normal_cdf (e + v) - std_normal_cdf e) e
     :> v * exp (v * e + v\<^sup>2 / 2) * std_normal_cdf (e + v)"
proof -
  have a: "DERIV (\<lambda>e. exp (v * e + v\<^sup>2 / 2)) e :> exp (v * e + v\<^sup>2 / 2) * (v * 1 + 0)"
    by (intro DERIV_chain2 [OF DERIV_exp] DERIV_add DERIV_cmult DERIV_ident DERIV_const)
  have b: "DERIV (\<lambda>e. std_normal_cdf (e + v)) e :> phi (e + v) * (1 + 0)"
    by (intro DERIV_chain2 [OF std_normal_cdf_deriv] DERIV_add DERIV_ident DERIV_const)
  have c: "DERIV (\<lambda>e. exp (v * e + v\<^sup>2 / 2) * std_normal_cdf (e + v)) e
             :> exp (v * e + v\<^sup>2 / 2) * (v * 1 + 0) * std_normal_cdf (e + v)
                + phi (e + v) * (1 + 0) * exp (v * e + v\<^sup>2 / 2)"
    by (rule DERIV_mult [OF a b])
  have d: "DERIV (\<lambda>e. exp (v * e + v\<^sup>2 / 2) * std_normal_cdf (e + v) - std_normal_cdf e) e
             :> exp (v * e + v\<^sup>2 / 2) * (v * 1 + 0) * std_normal_cdf (e + v)
                + phi (e + v) * (1 + 0) * exp (v * e + v\<^sup>2 / 2) - phi e"
    by (rule DERIV_diff [OF c std_normal_cdf_deriv])
  have "(e + v) * v - v\<^sup>2 / 2 = v * e + v\<^sup>2 / 2"
    by (simp add: power2_eq_square algebra_simps)
  with phi_shift [of "e + v" v] have "phi e = phi (e + v) * exp (v * e + v\<^sup>2 / 2)"
    by simp
  then have eq: "exp (v * e + v\<^sup>2 / 2) * (v * 1 + 0) * std_normal_cdf (e + v)
                + phi (e + v) * (1 + 0) * exp (v * e + v\<^sup>2 / 2) - phi e
             = v * exp (v * e + v\<^sup>2 / 2) * std_normal_cdf (e + v)"
    by simp
  show ?thesis using d unfolding eq .
qed

lemma tilted_cdf_ge:
  assumes "0 \<le> v"
  shows "std_normal_cdf e \<le> exp (v * e + v\<^sup>2 / 2) * std_normal_cdf (e + v)"
proof -
  define k where "k = (\<lambda>e. exp (v * e + v\<^sup>2 / 2) * std_normal_cdf (e + v) - std_normal_cdf e)"
  have mono: "k a \<le> k b" if "a \<le> b" for a b
  proof (rule DERIV_nonneg_imp_nondecreasing [of a b k, OF that])
    fix x :: real
    have "0 \<le> v * exp (v * x + v\<^sup>2 / 2) * std_normal_cdf (x + v)"
      using assms std_normal_cdf_range [of "x + v"] by simp
    with tilted_cdf_deriv [of v x] show "\<exists>y. DERIV k x :> y \<and> 0 \<le> y"
      unfolding k_def by blast
  qed
  have "0 \<le> k e"
  proof (rule field_le_epsilon)
    fix eps :: real assume "0 < eps"
    then obtain n where n: "inverse (real (Suc n)) < eps"
      using reals_Archimedean by blast
    define e' where "e' = min e (- sqrt (2 * real n))"
    have "std_normal_cdf e' \<le> 1 / (2 * real (Suc n))"
      by (rule std_normal_cdf_lower_tail) (simp add: e'_def)
    also have "\<dots> \<le> inverse (real (Suc n))"
      by (simp add: field_simps)
    finally have tail: "std_normal_cdf e' < eps" using n by simp
    have "0 \<le> exp (v * e' + v\<^sup>2 / 2) * std_normal_cdf (e' + v)"
      using std_normal_cdf_range [of "e' + v"] by simp
    then have "- std_normal_cdf e' \<le> k e'" by (simp add: k_def)
    also have "k e' \<le> k e" by (rule mono) (simp add: e'_def)
    finally show "0 \<le> k e + eps" using tail by simp
  qed
  then show ?thesis by (simp add: k_def)
qed

lemma exp_neg_log_ratio:
  fixes S K x :: real
  assumes "0 < S" "0 < K"
  shows "exp (- (ln (S / K) + x)) = K / S * exp (- x)"
proof -
  have "- (ln (S / K) + x) = (- ln (S / K)) + (- x)" by simp
  then have "exp (- (ln (S / K) + x)) = exp (- ln (S / K)) * exp (- x)"
    by (simp only: exp_add)
  also have "exp (- ln (S / K)) = inverse (S / K)"
    using assms by (simp add: exp_minus)
  also have "inverse (S / K) = K / S" by simp
  finally show ?thesis .
qed

lemma call_value_nonneg:
  assumes "0 < S" "0 < K" "0 < T" "0 < sigma"
  shows "0 \<le> call_value S K T r sigma"
proof -
  let ?v = "sigma * sqrt T"
  let ?d = "d1_of S K T r sigma"
  have v: "0 \<le> ?v" using assms by simp
  have "?d * ?v - ?v\<^sup>2 / 2 = ln (S / K) + r * T"
    unfolding d1_of_def by (rule moneyness_shift [OF assms(3,4)])
  then have "?v * (?d - ?v) + ?v\<^sup>2 / 2 = ln (S / K) + r * T"
    by (simp add: power2_eq_square algebra_simps)
  then have "exp (?v * (?d - ?v) + ?v\<^sup>2 / 2) = S / K * exp (r * T)"
    using assms(1,2) by (simp add: exp_add)
  with tilted_cdf_ge [OF v, of "?d - ?v"]
  have "std_normal_cdf (?d - ?v) \<le> S / K * exp (r * T) * std_normal_cdf ?d"
    by simp
  then have "K * exp (- r * T) * std_normal_cdf (?d - ?v)
               \<le> K * exp (- r * T) * (S / K * exp (r * T) * std_normal_cdf ?d)"
    using assms(2) by (intro mult_left_mono) simp_all
  also have "\<dots> = S * std_normal_cdf ?d * (exp (- r * T) * exp (r * T))"
    using assms(2) by simp
  also have "exp (- r * T) * exp (r * T) = 1"
    by (simp add: exp_add [symmetric])
  finally show ?thesis by (simp add: call_value_def)
qed

lemma put_value_nonneg:
  assumes "0 < S" "0 < K" "0 < T" "0 < sigma"
  shows "0 \<le> call_value S K T r sigma - S + K * exp (- r * T)"
proof -
  let ?v = "sigma * sqrt T"
  let ?d = "d1_of S K T r sigma"
  have v: "0 \<le> ?v" using assms by simp
  have "?d * ?v - ?v\<^sup>2 / 2 = ln (S / K) + r * T"
    unfolding d1_of_def by (rule moneyness_shift [OF assms(3,4)])
  then have "?v * (- ?d) + ?v\<^sup>2 / 2 = - (ln (S / K) + r * T)"
    by (simp add: power2_eq_square algebra_simps)
  then have "exp (?v * (- ?d) + ?v\<^sup>2 / 2) = exp (- (ln (S / K) + r * T))"
    by (simp only:)
  also have "\<dots> = K / S * exp (- r * T)"
    using exp_neg_log_ratio [OF assms(1,2), of "r * T"] by simp
  finally have "exp (?v * (- ?d) + ?v\<^sup>2 / 2) = K / S * exp (- r * T)" .
  with tilted_cdf_ge [OF v, of "- ?d"]
  have "std_normal_cdf (- ?d) \<le> K / S * exp (- r * T) * std_normal_cdf (- ?d + ?v)"
    by simp
  then have "S * std_normal_cdf (- ?d) \<le> S * (K / S * exp (- r * T) * std_normal_cdf (- ?d + ?v))"
    using assms(1) by (intro mult_left_mono) simp_all
  also have "\<dots> = K * exp (- r * T) * std_normal_cdf (- (?d - ?v))"
    using assms(1) by simp
  finally have "S * (1 - std_normal_cdf ?d) \<le> K * exp (- r * T) * (1 - std_normal_cdf (?d - ?v))"
    by (simp only: std_normal_cdf_symmetric)
  then show ?thesis by (simp add: call_value_def algebra_simps)
qed

lemma price_nonneg_positive_volatility:
  assumes "0 < S" "0 < K" "0 < T" "0 < sigma"
  shows "\<exists>c p. black_scholes_price S K T r sigma ''call'' = Inr c \<and> 0 \<le> c
           \<and> black_scholes_price S K T r sigma ''put'' = Inr p \<and> 0 \<le> p"
proof -
  from assms(2) have K: "K \<noteq> 0" by simp
  show ?thesis
    using call_value_nonneg [OF assms] put_value_nonneg [OF assms]
    by (simp add: price_call_general [OF assms(3,4) K] price_put_general [OF assms(3,4) K])
qed

section \<open>Zero volatility before expiry breaks monotonicity and non-negativity\<close>

text \<open>
  C7. The call price is to be non-decreasing and the put price non-increasing in the spot,
  for fixed \<open>K > 0\<close>, \<open>T \<ge> 0\<close>, \<open>r\<close> and \<open>sigma \<ge> 0\<close>. This holds at expiry
  (\<open>price_at_expiry_monotone\<close>) and for \<open>T > 0\<close>, \<open>sigma > 0\<close>
  (\<open>price_monotone_positive_volatility\<close>). It fails in the zero-volatility branch:
  with \<open>K = 100\<close>, \<open>T = 1\<close>, \<open>r = 0.05\<close> and \<open>sigma = 0\<close> the put price is
  \<open>100 exp (- 0.05) - 100 < 0\<close> at \<open>S = 100\<close> and 0 at \<open>S = 101\<close>: it increases.
  That branch compares the spot with the strike, not with the discounted strike, and
  does not clamp at zero as the expiry branch does.
\<close>

theorem put_price_increases_at_zero_volatility:
  "black_scholes_price 100 100 1 (1/20) 0 ''put'' = Inr (100 * exp (- (1/20)) - 100)
   \<and> black_scholes_price 101 100 1 (1/20) 0 ''put'' = Inr 0
   \<and> 100 * exp (- (1/20)) - 100 < (0::real)"
  by (simp add: black_scholes_price_def calculate_d1_d2_def)

text \<open>
  C8. The price is to be non-negative for every \<open>S > 0\<close>, \<open>K > 0\<close>, \<open>T \<ge> 0\<close>,
  \<open>sigma \<ge> 0\<close>. This holds at expiry (\<open>price_at_expiry_nonneg\<close>) and for \<open>T > 0\<close>,
  \<open>sigma > 0\<close> (\<open>price_nonneg_positive_volatility\<close>). It fails in the same
  zero-volatility branch: with \<open>S = K = 50\<close>, \<open>T = 2\<close>, \<open>r = 0.1\<close> and
  \<open>sigma = 0\<close> the put price is \<open>50 exp (- 0.2) - 50\<close>, which is negative.
\<close>

theorem negative_price_at_zero_volatility:
  "black_scholes_price 50 50 2 (1/10) 0 ''put'' = Inr (50 * exp (- (1/5)) - 50)
   \<and> 50 * exp (- (1/5)) - 50 < (0::real)"
  by (simp add: black_scholes_price_def calculate_d1_d2_def)

end
